theory Spec2Isabelle
  imports Main "HOL-Library.Sublist"
begin

section \<open>Stop-string detection (\<^verbatim>\<open>mlx_engine/stop_string_processor.py\<close>)\<close>

text \<open>
  Python values are modelled as follows. A \<^verbatim>\<open>str\<close> is a \<^typ>\<open>string\<close> (a list of
  characters; every operation below only compares characters and counts positions), a
  token id is an \<^typ>\<open>int\<close>, a \<^verbatim>\<open>List[int]\<close> is an \<^typ>\<open>int list\<close>. The status
  \<^verbatim>\<open>Literal["full_stop", "partial_match", "no_match"]\<close> is only a type hint in Python:
  at run time a status is an arbitrary \<^verbatim>\<open>str\<close>, and \<^verbatim>\<open>process_token\<close> has a branch for
  the strings outside the three literals. It is therefore a \<^typ>\<open>string\<close> here.
\<close>

type_synonym StopStringProcessorStatus = string

text \<open>\<^verbatim>\<open>class StopStringProcessorResult(NamedTuple)\<close>: status, stop_string, stop_tokens.\<close>

datatype StopStringProcessorResult =
  StopStringProcessorResult
    (status: StopStringProcessorStatus)
    (stop_string: "string option")
    (stop_tokens: "int list option")

text \<open>\<^verbatim>\<open>class StoppingCriteriaResult(NamedTuple)\<close>: status, stop_string.\<close>

datatype StoppingCriteriaResult =
  StoppingCriteriaResult
    (criteria_status: StopStringProcessorStatus)
    (criteria_stop_string: "string option")

text \<open>
  \<^verbatim>\<open>stopping_criteria\<close> is annotated to return a \<^verbatim>\<open>StoppingCriteriaResult\<close>, but
  \<^verbatim>\<open>check_partial_text_match\<close> builds a \<^verbatim>\<open>StopStringProcessorResult\<close>, which flows out
  unchanged. The value returned by the evaluator is one of the two named tuples; its
  readers only use the attributes \<^verbatim>\<open>.status\<close> and \<^verbatim>\<open>.stop_string\<close>, which both have.
\<close>

datatype evaluator_result =
  Criteria StoppingCriteriaResult
| Processor StopStringProcessorResult

fun result_status :: "evaluator_result \<Rightarrow> StopStringProcessorStatus" where
  "result_status (Criteria r) = criteria_status r"
| "result_status (Processor r) = status r"

fun result_stop_string :: "evaluator_result \<Rightarrow> string option" where
  "result_stop_string (Criteria r) = criteria_stop_string r"
| "result_stop_string (Processor r) = stop_string r"

subsection \<open>\<^verbatim>\<open>sequence_overlap\<close>\<close>

text \<open>
  \<^verbatim>\<open>s[-i:]\<close> for \<open>i \<ge> 1\<close>: the slice starts at \<open>len(s) - i\<close>, clamped to 0 when
  \<open>i > len(s)\<close>; truncating subtraction on \<^typ>\<open>nat\<close> is that clamp. \<^verbatim>\<open>s[:i]\<close> is
  \<^term>\<open>take i s\<close>.
\<close>

definition slice_last :: "nat \<Rightarrow> 'a list \<Rightarrow> 'a list" where
  "slice_last i s = drop (length s - i) s"

text \<open>
  \<^verbatim>\<open>
  max_overlap = min(len(s1), len(s2))
  return any(s1[-i:] == s2[:i] for i in range(1, max_overlap + 1))
  \<close>
\<close>

definition sequence_overlap :: "'a list \<Rightarrow> 'a list \<Rightarrow> bool" where
  "sequence_overlap s1 s2 =
     (let max_overlap = min (length s1) (length s2)
      in list_ex (\<lambda>i. slice_last i s1 = take i s2) [1 ..< max_overlap + 1])"

subsection \<open>\<^verbatim>\<open>check_full_text_match\<close>\<close>

text \<open>
  Python's built-in \<^verbatim>\<open>str.find(sub)\<close>: the lowest index at which \<^verbatim>\<open>sub\<close> occurs in the
  string, or \<open>-1\<close> when it does not occur. The empty string occurs at index 0 of every
  string, the empty one included.
\<close>

fun str_find :: "'a list \<Rightarrow> 'a list \<Rightarrow> int" where
  "str_find [] sub = (if sub = [] then 0 else - 1)"
| "str_find (c # cs) sub =
     (if prefix sub (c # cs) then 0
      else (let r = str_find cs sub in if r = - 1 then - 1 else r + 1))"

text \<open>
  The dictionary \<^verbatim>\<open>earliest_match = {"position": float("inf"), "stop_string": None}\<close>
  has two fixed keys. Its position is either the float infinity or an index returned by
  \<^verbatim>\<open>find\<close>.
\<close>

datatype position = Inf | Pos int

fun position_less :: "int \<Rightarrow> position \<Rightarrow> bool" where
  "position_less p Inf = True"
| "position_less p (Pos q) = (p < q)"

record earliest_match =
  em_position :: position
  em_stop_string :: "string option"

text \<open>
  \<^verbatim>\<open>
  for stop_string in stop_strings:
      position = string.find(stop_string)
      if position != -1 and position < earliest_match["position"]:
          earliest_match.update({"position": position, "stop_string": stop_string})
  \<close>
\<close>

fun earliest_match_loop :: "string \<Rightarrow> string list \<Rightarrow> earliest_match \<Rightarrow> earliest_match" where
  "earliest_match_loop string [] em = em"
| "earliest_match_loop string (stop_str # rest) em =
     (let position = str_find string stop_str
      in earliest_match_loop string rest
           (if position \<noteq> - 1 \<and> position_less position (em_position em)
            then \<lparr>em_position = Pos position, em_stop_string = Some stop_str\<rparr>
            else em))"

definition check_full_text_match :: "string \<Rightarrow> string list \<Rightarrow> StoppingCriteriaResult option" where
  "check_full_text_match string stop_strings =
     (let em = earliest_match_loop string stop_strings
                 \<lparr>em_position = Inf, em_stop_string = None\<rparr>
      in if em_stop_string em \<noteq> None
         then Some (StoppingCriteriaResult ''full_stop'' (em_stop_string em))
         else None)"

subsection \<open>\<^verbatim>\<open>check_partial_token_match\<close>, \<^verbatim>\<open>check_partial_text_match\<close>\<close>

text \<open>Both loops return at the first stop sequence that overlaps.\<close>

fun check_partial_token_match :: "int list \<Rightarrow> int list list \<Rightarrow> StoppingCriteriaResult option" where
  "check_partial_token_match token_sequence [] = None"
| "check_partial_token_match token_sequence (stop_token_sequence # rest) =
     (if sequence_overlap token_sequence stop_token_sequence
      then Some (StoppingCriteriaResult ''partial_match'' None)
      else check_partial_token_match token_sequence rest)"

fun check_partial_text_match :: "string \<Rightarrow> string list \<Rightarrow> StopStringProcessorResult option" where
  "check_partial_text_match string [] = None"
| "check_partial_text_match string (stop_str # rest) =
     (if sequence_overlap string stop_str
      then Some (StopStringProcessorResult ''partial_match'' None None)
      else check_partial_text_match string rest)"

subsection \<open>\<^verbatim>\<open>stopping_criteria\<close>\<close>

text \<open>
  \<^verbatim>\<open>a or b\<close> is \<^verbatim>\<open>a\<close> when \<^verbatim>\<open>a\<close> is truthy and \<^verbatim>\<open>b\<close> otherwise. \<^verbatim>\<open>None\<close> is falsy; a
  named tuple is truthy when it has at least one field, which both result classes have.
  So each helper's result, when it is not \<^verbatim>\<open>None\<close>, ends the chain.
\<close>

definition stopping_criteria ::
  "string \<Rightarrow> int list \<Rightarrow> string list \<Rightarrow> int list list \<Rightarrow> evaluator_result" where
  "stopping_criteria string token_sequence stop_strings stop_token_sequences =
     (case check_full_text_match string stop_strings of
        Some r \<Rightarrow> Criteria r
      | None \<Rightarrow>
          (case check_partial_token_match token_sequence stop_token_sequences of
             Some r \<Rightarrow> Criteria r
           | None \<Rightarrow>
               (case check_partial_text_match string stop_strings of
                  Some r \<Rightarrow> Processor r
                | None \<Rightarrow> Criteria (StoppingCriteriaResult ''no_match'' None))))"

subsection \<open>\<^verbatim>\<open>class StopStringProcessor\<close>\<close>

text \<open>The tokenizer is an external collaborator: its two methods are parameters.\<close>

record tokenizer =
  encode :: "string \<Rightarrow> int list"
  decode :: "int list \<Rightarrow> string"

record StopStringProcessor =
  stop_strings :: "string list"
  stop_token_sequences :: "int list list"
  processor_tokenizer :: tokenizer
  token_id_buffer :: "int list"

text \<open>\<^verbatim>\<open>__init__(self, stop_strings, tokenizer)\<close>\<close>

definition StopStringProcessor_init :: "string list \<Rightarrow> tokenizer \<Rightarrow> StopStringProcessor" where
  "StopStringProcessor_init stop_strs tok =
     \<lparr>stop_strings = stop_strs,
      stop_token_sequences = map (encode tok) stop_strs,
      processor_tokenizer = tok,
      token_id_buffer = []\<rparr>"

datatype error = ValueError string

text \<open>
  \<^verbatim>\<open>process_token\<close> mutates \<^verbatim>\<open>self.token_id_buffer\<close>; the model returns the processor
  after the call next to the outcome, which is the returned tuple or the raised error.
  The append at line 50 has happened by the time line 79 raises, so the processor
  returned with an error holds the new token.

  The evaluator is the module-level name \<^verbatim>\<open>stopping_criteria\<close>, looked up at each call.
  \<open>process_token_with\<close> takes it as its first argument, so that the branch on a status
  outside the three literals can be exercised; \<open>process_token\<close> is the method as it
  runs, with the evaluator of this module.
\<close>

type_synonym evaluator =
  "string \<Rightarrow> int list \<Rightarrow> string list \<Rightarrow> int list list \<Rightarrow> evaluator_result"

definition process_token_with ::
  "evaluator \<Rightarrow> StopStringProcessor \<Rightarrow> int \<Rightarrow> (error + StopStringProcessorResult) \<times> StopStringProcessor" where
  "process_token_with evaluate self tokens =
     (if length (stop_strings self) = 0
      then (Inr (StopStringProcessorResult ''no_match'' None None), self)
      else
        (let self1 = self\<lparr>token_id_buffer := token_id_buffer self @ [tokens]\<rparr>;
             result = evaluate (decode (processor_tokenizer self1) (token_id_buffer self1))
                        (token_id_buffer self1) (stop_strings self1) (stop_token_sequences self1)
         in if result_status result = ''no_match''
            then (Inr (StopStringProcessorResult ''no_match'' None None),
                  self1\<lparr>token_id_buffer := []\<rparr>)
            else if result_status result = ''partial_match''
            then (Inr (StopStringProcessorResult ''partial_match'' None None), self1)
            else if result_status result = ''full_stop''
            then (Inr (StopStringProcessorResult ''full_stop'' (result_stop_string result)
                         (Some (token_id_buffer self1))),
                  self1)
            else (Inl (ValueError (''Unknown StopProcessorStatus: '' @ result_status result)),
                  self1)))"

definition process_token ::
  "StopStringProcessor \<Rightarrow> int \<Rightarrow> (error + StopStringProcessorResult) \<times> StopStringProcessor" where
  "process_token = process_token_with stopping_criteria"

text \<open>
  Repeated calls on one processor, as a generation loop makes them: the outcomes in call
  order and the processor after the last call.
\<close>

fun process_tokens ::
  "StopStringProcessor \<Rightarrow> int list \<Rightarrow> (error + StopStringProcessorResult) list \<times> StopStringProcessor" where
  "process_tokens self [] = ([], self)"
| "process_tokens self (t # ts) =
     (let (r, self1) = process_token self t;
          (rs, self2) = process_tokens self1 ts
      in (r # rs, self2))"

subsection \<open>Specification vocabulary for the stop-string claims\<close>

text \<open>
  \<open>occurs_at body sub i\<close>: the string \<open>sub\<close> occurs in \<open>body\<close> at character index
  \<open>i\<close>, that is \<^verbatim>\<open>body[i:i+len(sub)] == sub\<close> with the slice inside the string.
\<close>

definition occurs_at :: "'a list \<Rightarrow> 'a list \<Rightarrow> nat \<Rightarrow> bool" where
  "occurs_at body sub i = (i + length sub \<le> length body \<and> take (length sub) (drop i body) = sub)"

text \<open>
  The invariant of the loop of \<^verbatim>\<open>check_full_text_match\<close> after the stop strings \<open>seen\<close>:
  nothing found yet, or the recorded stop string is the first of \<open>seen\<close> that attains the
  least \<^verbatim>\<open>find\<close> position.
\<close>

definition earliest_inv :: "string \<Rightarrow> string list \<Rightarrow> earliest_match \<Rightarrow> bool" where
  "earliest_inv body seen em =
     (case em_position em of
        Inf \<Rightarrow> em_stop_string em = None \<and> (\<forall>s\<in>set seen. str_find body s = - 1)
      | Pos p \<Rightarrow>
          (\<exists>pre s post. seen = pre @ s # post \<and> em_stop_string em = Some s \<and>
             str_find body s = p \<and> p \<noteq> - 1 \<and>
             (\<forall>t\<in>set seen. str_find body t \<noteq> - 1 \<longrightarrow> p \<le> str_find body t) \<and>
             (\<forall>t\<in>set pre. str_find body t \<noteq> p)))"

text \<open>
  The tokens pending after a sequence of calls, read off the outcomes alone: a
  \<^verbatim>\<open>no_match\<close> outcome empties the list, every other outcome adds the call's token.
\<close>

fun pending_tokens ::
  "int list \<Rightarrow> (int \<times> (error + StopStringProcessorResult)) list \<Rightarrow> int list" where
  "pending_tokens buffer [] = buffer"
| "pending_tokens buffer ((t, r) # rest) =
     pending_tokens
       (if r = Inr (StopStringProcessorResult ''no_match'' None None) then [] else buffer @ [t])
       rest"

section \<open>The generation loop (\<^verbatim>\<open>mlx_engine/generate.py\<close>)\<close>

definition MAX_TOP_LOGPROBS :: int where
  "MAX_TOP_LOGPROBS = 10"

text \<open>
  \<^verbatim>\<open>TokenLogprob\<close> is imported from \<^verbatim>\<open>mlx_engine.utils.top_logprobs\<close>; the loop builds it
  from three positional arguments: the token id, its decoded text and the float
  \<^verbatim>\<open>float(logprobs[token])\<close>. Floats are only carried around, never computed with: their
  type is the parameter \<open>'f\<close>.
\<close>

datatype 'f TokenLogprob = TokenLogprob int string 'f

text \<open>
  Modelled from the spec: the classes \<^verbatim>\<open>GenerationStopCondition\<close> and the result of
  \<^verbatim>\<open>StopProcessor.process_token\<close> live in \<^verbatim>\<open>mlx_engine/stop_processor.py\<close>, which is not
  among the source files. The stop-condition descriptor "records why generation ended,
  which stop string (if any) matched, the exact token ids that produced it". Of the
  processor's result the loop reads \<^verbatim>\<open>.status\<close> and \<^verbatim>\<open>.stop_reason\<close>; a full stop carries
  the stop string and the stop tokens.
\<close>

datatype GenerationStopCondition =
  GenerationStopCondition
    (cond_stop_reason: string)
    (cond_stop_string: "string option")
    (cond_stop_tokens: "int list option")

datatype StopProcessorResult =
  StopProcessorResult
    (sp_status: string)
    (sp_stop_reason: "string option")
    (sp_stop_string: "string option")
    (sp_stop_tokens: "int list option")

text \<open>\<^verbatim>\<open>class GenerationResult(NamedTuple)\<close>: text, tokens, top_logprobs, stop_condition.\<close>

record 'f GenerationResult =
  gr_text :: string
  gr_tokens :: "'f TokenLogprob list"
  gr_top_logprobs :: "'f TokenLogprob list list"
  stop_condition :: "GenerationStopCondition option"

text \<open>
  One item of \<^verbatim>\<open>mlx_lm.utils.stream_generate\<close>: the attributes \<^verbatim>\<open>.token\<close>, \<^verbatim>\<open>.logprobs\<close>
  (indexed by token id) and \<^verbatim>\<open>.text\<close> (the detokenizer's segment for this step).
\<close>

record 'f generation_step =
  gen_token :: int
  gen_logprobs :: "int \<Rightarrow> 'f"
  gen_text :: string

text \<open>
  The external collaborators of \<^verbatim>\<open>create_generator\<close>, as parameters:
  \<^item> \<open>process_prompt\<close>: \<^verbatim>\<open>model_kit.process_prompt(...).tolist()\<close>, with the images, the
    progress callback and the generation arguments already supplied;
  \<^item> \<open>tokenize\<close>: \<^verbatim>\<open>model_kit.tokenize\<close>; \<open>decode_token\<close>: \<^verbatim>\<open>tokenizer.decode(token)\<close>;
  \<^item> \<open>summarize_top_logprobs\<close>: the function of that name, applied to the tokenizer;
  \<^item> \<open>stream_generate\<close>: the token source \<^verbatim>\<open>mlx_lm.utils.stream_generate\<close> with model,
    tokenizer, sampler and logits processors supplied; it receives the processed prompt
    and \<^verbatim>\<open>max_tokens\<close> as given by the caller, and its result is the sequence of items it
    produces when asked for one after the other;
  \<^item> \<open>new_stop_processor\<close>, \<open>sp_process_token\<close>, \<open>sp_finalize\<close>: the constructor and the two
    methods of \<^verbatim>\<open>StopProcessor\<close> (module \<^verbatim>\<open>mlx_engine/stop_processor.py\<close>, not among the
    source files), over a processor state \<open>'p\<close>. \<open>sp_process_token\<close> may raise.
\<close>

record ('f, 'p) collaborators =
  process_prompt :: "int list \<Rightarrow> int list"
  tokenize :: "string \<Rightarrow> int list"
  decode_token :: "int \<Rightarrow> string"
  summarize_top_logprobs :: "(int \<Rightarrow> 'f) \<Rightarrow> int \<Rightarrow> 'f TokenLogprob list"
  stream_generate :: "int list \<Rightarrow> int option \<Rightarrow> 'f generation_step list"
  new_stop_processor :: "int list list \<Rightarrow> 'p"
  sp_process_token :: "'p \<Rightarrow> int \<Rightarrow> (error + StopProcessorResult) \<times> 'p"
  sp_finalize ::
    "'p \<Rightarrow> string \<Rightarrow> StopProcessorResult option \<Rightarrow> string \<times> GenerationStopCondition option"

text \<open>
  The local variables of \<^verbatim>\<open>create_generator\<close> that the loop reads and writes.
  \<open>recorded_tokens\<close> is the effect of \<^verbatim>\<open>model_kit.record_generated_token\<close>.
\<close>

record ('f, 'p) loop_state =
  token_buffer :: "'f TokenLogprob list"
  top_logprobs_buffer :: "'f TokenLogprob list list"
  stop_processor :: 'p
  stop_processor_result :: "StopProcessorResult option"
  text_buffer :: string
  recorded_tokens :: "int list"

text \<open>How one pass through the loop body ends: on to the next item, \<^verbatim>\<open>break\<close>, or an error.\<close>

datatype control = Next | Break | Raise error

text \<open>
  The body of the \<^verbatim>\<open>for\<close> loop, lines 196 to 232, for one item of the token source. It
  returns the variables after the pass, the results yielded during the pass (none or one)
  and how the pass ended. \<^verbatim>\<open>if top_logprobs:\<close> tests an integer: true when it is not 0.
\<close>

definition loop_body ::
  "('f, 'p) collaborators \<Rightarrow> int \<Rightarrow> ('f, 'p) loop_state \<Rightarrow> 'f generation_step \<Rightarrow>
     ('f, 'p) loop_state \<times> 'f GenerationResult list \<times> control" where
  "loop_body env top_logprobs st generation_result =
     (let token = gen_token generation_result;
          logprobs = gen_logprobs generation_result;
          st1 = st\<lparr>recorded_tokens := recorded_tokens st @ [token],
                   token_buffer := token_buffer st @
                     [TokenLogprob token (decode_token env token) (logprobs token)]\<rparr>;
          st2 = (if top_logprobs \<noteq> 0
                 then st1\<lparr>top_logprobs_buffer := top_logprobs_buffer st1 @
                            [summarize_top_logprobs env logprobs top_logprobs]\<rparr>
                 else st1)
      in case sp_process_token env (stop_processor st2) token of
           (Inl e, p) \<Rightarrow> (st2\<lparr>stop_processor := p\<rparr>, [], Raise e)
         | (Inr r, p) \<Rightarrow>
             (let st3 = st2\<lparr>stop_processor := p, stop_processor_result := Some r,
                             text_buffer := text_buffer st2 @ gen_text generation_result\<rparr>
              in if sp_status r = ''full_stop'' \<and> sp_stop_reason r \<noteq> Some ''eos_token''
                 then (st3, [], Break)
                 else if sp_status r = ''partial_match''
                 then (st3, [], Next)
                 else if text_buffer st3 \<noteq> []
                 then (st3\<lparr>token_buffer := [], top_logprobs_buffer := [], text_buffer := []\<rparr>,
                       [\<lparr>gr_text = text_buffer st3, gr_tokens = token_buffer st3,
                         gr_top_logprobs = top_logprobs_buffer st3, stop_condition = None\<rparr>],
                       Next)
                 else (st3, [], Next)))"

text \<open>
  The \<^verbatim>\<open>for\<close> loop over the items of the token source. The result is the variables when
  the loop is left, the results yielded in order, the number of items taken from the
  source, and the error if a pass raised.
\<close>

fun generation_loop ::
  "('f, 'p) collaborators \<Rightarrow> int \<Rightarrow> ('f, 'p) loop_state \<Rightarrow> 'f generation_step list \<Rightarrow>
     ('f, 'p) loop_state \<times> 'f GenerationResult list \<times> nat \<times> error option" where
  "generation_loop env top_logprobs st [] = (st, [], 0, None)"
| "generation_loop env top_logprobs st (generation_result # rest) =
     (case loop_body env top_logprobs st generation_result of
        (st1, out, Raise e) \<Rightarrow> (st1, out, 1, Some e)
      | (st1, out, Break) \<Rightarrow> (st1, out, 1, None)
      | (st1, out, Next) \<Rightarrow>
          (case generation_loop env top_logprobs st1 rest of
             (st2, outs, n, err) \<Rightarrow> (st2, out @ outs, Suc n, err)))"

text \<open>
  A run of the generator, consumed to its end: the results it yields in order, how many
  items it took from the token source, and the error that ended it, if any.
\<close>

record 'f generation_run =
  yielded :: "'f GenerationResult list"
  tokens_requested :: nat
  raised :: "error option"

text \<open>
  \<^verbatim>\<open>create_generator\<close>, with the keyword arguments that it inspects itself:
  \<^verbatim>\<open>stop_strings\<close>, \<^verbatim>\<open>top_logprobs\<close> and \<^verbatim>\<open>max_tokens\<close> (the sampling arguments, the seed,
  the images and the JSON schema only reach the collaborators). \<^verbatim>\<open>stop_strings or []\<close> is
  the empty list for \<^verbatim>\<open>None\<close>. The token source is entered at line 189, after the check of
  \<^verbatim>\<open>top_logprobs\<close> at lines 169 to 174.
\<close>

definition create_generator ::
  "('f, 'p) collaborators \<Rightarrow> int list \<Rightarrow> string list option \<Rightarrow> int option \<Rightarrow> int option \<Rightarrow>
     'f generation_run" where
  "create_generator env prompt_tokens stop_strs top_logprobs_arg max_tokens =
     (let stream_generate_input = process_prompt env prompt_tokens;
          top_logprobs = (case top_logprobs_arg of None \<Rightarrow> 0 | Some k \<Rightarrow> k)
      in if top_logprobs > MAX_TOP_LOGPROBS
         then \<lparr>yielded = [], tokens_requested = 0,
               raised = Some (ValueError ''top_logprobs must be less than or equal to 10'')\<rparr>
         else
           (let stop_sequences =
                  map (tokenize env) (case stop_strs of None \<Rightarrow> [] | Some l \<Rightarrow> l);
                st0 = \<lparr>token_buffer = [], top_logprobs_buffer = [],
                       stop_processor = new_stop_processor env stop_sequences,
                       stop_processor_result = None, text_buffer = [], recorded_tokens = []\<rparr>
            in case generation_loop env top_logprobs st0
                      (stream_generate env stream_generate_input max_tokens) of
                 (st, outs, n, Some e) \<Rightarrow>
                   \<lparr>yielded = outs, tokens_requested = n, raised = Some e\<rparr>
               | (st, outs, n, None) \<Rightarrow>
                   (case sp_finalize env (stop_processor st) (text_buffer st)
                           (stop_processor_result st) of
                      (final_text, generation_stop_condition) \<Rightarrow>
                        \<lparr>yielded = outs @
                           [\<lparr>gr_text = final_text, gr_tokens = token_buffer st,
                             gr_top_logprobs = top_logprobs_buffer st,
                             stop_condition = generation_stop_condition\<rparr>],
                         tokens_requested = n, raised = None\<rparr>)))"

subsection \<open>The stop processor of the loop, from the specification\<close>

text \<open>
  Modelled from the spec: \<^verbatim>\<open>StopProcessor.finalize\<close> (module
  \<^verbatim>\<open>mlx_engine/stop_processor.py\<close>, not among the source files). The specification says
  of every way a run ends that the last result is emitted with a stop-condition
  descriptor: "the very last result of a run always carries a non-null stop-condition
  descriptor", which is "created exactly once, at the moment the run terminates".
  \<open>finalize_creates_descriptor\<close> is this requirement on the method.
\<close>

definition finalize_creates_descriptor ::
  "('p \<Rightarrow> string \<Rightarrow> StopProcessorResult option \<Rightarrow> string \<times> GenerationStopCondition option)
     \<Rightarrow> bool" where
  "finalize_creates_descriptor fin = (\<forall>p body r. snd (fin p body r) \<noteq> None)"

text \<open>
  Modelled from the spec: \<^verbatim>\<open>StopProcessor.finalize\<close>, as the specification describes the
  end of a run. After a full stop that is not the model's end-of-sequence signal the
  accumulated text is truncated at the match position ("drop the stop string and
  everything after it") and the descriptor names the stop string and the stop tokens.
  Otherwise nothing is truncated and the descriptor describes end-of-sequence or
  max-tokens-reached; a run without any token ends with max-tokens-reached.
\<close>

definition finalize ::
  "'p \<Rightarrow> string \<Rightarrow> StopProcessorResult option \<Rightarrow> string \<times> GenerationStopCondition option" where
  "finalize p body r =
     (case r of
        None \<Rightarrow> (body, Some (GenerationStopCondition ''max_tokens'' None None))
      | Some res \<Rightarrow>
          if sp_status res = ''full_stop'' \<and> sp_stop_reason res \<noteq> Some ''eos_token''
          then (case sp_stop_string res of
                  None \<Rightarrow> body
                | Some s \<Rightarrow> if str_find body s = - 1 then body else take (nat (str_find body s)) body,
                Some (GenerationStopCondition ''stop_string'' (sp_stop_string res) (sp_stop_tokens res)))
          else if sp_status res = ''full_stop''
          then (body, Some (GenerationStopCondition ''eos_token'' None None))
          else (body, Some (GenerationStopCondition ''max_tokens'' None None)))"

text \<open>
  Modelled from the spec: \<^verbatim>\<open>StopProcessor.process_token\<close> (same missing module). Its
  operation is the one of section 4.3 of the specification, which is
  \<^verbatim>\<open>StopStringProcessor.process_token\<close> of this repository; the result is given the
  attribute \<^verbatim>\<open>stop_reason\<close> that the loop reads, which for a stop string is not the
  end-of-sequence reason.
\<close>

definition stop_processor_process_token ::
  "StopStringProcessor \<Rightarrow> int \<Rightarrow> (error + StopProcessorResult) \<times> StopStringProcessor" where
  "stop_processor_process_token p t =
     (case process_token p t of
        (Inl e, p1) \<Rightarrow> (Inl e, p1)
      | (Inr r, p1) \<Rightarrow>
          (Inr (StopProcessorResult (status r)
                  (if status r = ''full_stop'' then Some ''stop_string'' else None)
                  (stop_string r) (stop_tokens r)),
           p1))"

subsection \<open>A concrete configuration\<close>

text \<open>
  A tokenizer with the three tokens 1, 2, 3 for the letters a, b, c (any other token
  decodes to nothing), and collaborators around it, to have concrete values for the
  parameters. The token source \<open>replay_source\<close> is a stand-in: it replays the processed
  prompt, one item per token, whatever the count. It says nothing about how
  \<^verbatim>\<open>mlx_lm.utils.stream_generate\<close> treats \<^verbatim>\<open>max_tokens\<close>.
\<close>

definition piece :: "int \<Rightarrow> string" where
  "piece t = (if t = 1 then ''a'' else if t = 2 then ''b'' else if t = 3 then ''c'' else [])"

definition letter_token :: "char \<Rightarrow> int" where
  "letter_token c = (if c = CHR ''a'' then 1 else if c = CHR ''b'' then 2
                     else if c = CHR ''c'' then 3 else 0)"

definition abc_tokenizer :: tokenizer where
  "abc_tokenizer = \<lparr>encode = map letter_token, decode = (\<lambda>ts. concat (map piece ts))\<rparr>"

definition replay_source :: "int list \<Rightarrow> int option \<Rightarrow> int generation_step list" where
  "replay_source prompt max_tokens =
     map (\<lambda>t. \<lparr>gen_token = t, gen_logprobs = (\<lambda>i. - 1), gen_text = piece t\<rparr>) prompt"

definition abc_collaborators :: "(int, StopStringProcessor) collaborators" where
  "abc_collaborators =
     \<lparr>process_prompt = (\<lambda>ts. ts),
      tokenize = encode abc_tokenizer,
      decode_token = piece,
      summarize_top_logprobs = (\<lambda>logprobs k. []),
      stream_generate = replay_source,
      new_stop_processor =
        (\<lambda>seqs. \<lparr>stop_strings = map (decode abc_tokenizer) seqs, stop_token_sequences = seqs,
                  processor_tokenizer = abc_tokenizer, token_id_buffer = []\<rparr>),
      sp_process_token = stop_processor_process_token,
      sp_finalize = finalize\<rparr>"

section \<open>Properties of the stop-string detection\<close>

subsection \<open>\<^verbatim>\<open>str.find\<close> returns the lowest index of an occurrence\<close>

lemma occurs_at_0: "occurs_at s sub 0 = prefix sub s"
  by (auto simp: occurs_at_def prefix_def min_def take_is_prefix) (metis append_eq_conv_conj)

lemma occurs_at_Suc: "occurs_at (c # cs) sub (Suc i) = occurs_at cs sub i"
  by (simp add: occurs_at_def)

lemma occurs_at_Nil: "occurs_at [] sub i = (sub = [] \<and> i = 0)"
  by (auto simp: occurs_at_def)

lemma str_find_range: "str_find s sub = - 1 \<or> 0 \<le> str_find s sub"
  by (induction s) (auto simp: Let_def)

lemma str_find_empty: "str_find s [] = 0"
  by (cases s) simp_all

lemma str_find_absent: "(str_find s sub = - 1) = (\<forall>i. \<not> occurs_at s sub i)"
proof (induction s)
  case Nil
  then show ?case by (auto simp: occurs_at_Nil)
next
  case (Cons c cs)
  show ?case
  proof (cases "prefix sub (c # cs)")
    case True
    then show ?thesis using occurs_at_0 [of "c # cs" sub] by auto
  next
    case False
    have "(\<forall>i. \<not> occurs_at (c # cs) sub i) = (\<forall>i. \<not> occurs_at cs sub i)"
    proof
      assume h: "\<forall>i. \<not> occurs_at (c # cs) sub i"
      show "\<forall>i. \<not> occurs_at cs sub i"
        using h occurs_at_Suc [of c cs sub] by blast
    next
      assume h: "\<forall>i. \<not> occurs_at cs sub i"
      show "\<forall>i. \<not> occurs_at (c # cs) sub i"
      proof
        fix i show "\<not> occurs_at (c # cs) sub i"
          using h False occurs_at_0 [of "c # cs" sub] occurs_at_Suc [of c cs sub]
          by (cases i) auto
      qed
    qed
    with Cons False str_find_range [of cs sub] show ?thesis
      by (auto simp: Let_def)
  qed
qed

lemma str_find_least:
  "str_find s sub \<noteq> - 1 \<Longrightarrow>
     occurs_at s sub (nat (str_find s sub)) \<and>
     (\<forall>q. occurs_at s sub q \<longrightarrow> nat (str_find s sub) \<le> q)"
proof (induction s)
  case Nil
  then show ?case by (auto simp: occurs_at_Nil split: if_splits)
next
  case (Cons c cs)
  show ?case
  proof (cases "prefix sub (c # cs)")
    case True
    then show ?thesis using occurs_at_0 [of "c # cs" sub] by simp
  next
    case False
    with Cons.prems have ne: "str_find cs sub \<noteq> - 1"
      by (auto simp: Let_def split: if_splits)
    with str_find_range [of cs sub] have nn: "0 \<le> str_find cs sub" by auto
    from False ne have eq: "str_find (c # cs) sub = str_find cs sub + 1"
      by (simp add: Let_def)
    from nn have nat_eq: "nat (str_find cs sub + 1) = Suc (nat (str_find cs sub))" by simp
    from Cons.IH [OF ne] have occ: "occurs_at cs sub (nat (str_find cs sub))"
      and least: "\<forall>q. occurs_at cs sub q \<longrightarrow> nat (str_find cs sub) \<le> q" by auto
    have "occurs_at (c # cs) sub (nat (str_find (c # cs) sub))"
      using occ by (simp only: eq nat_eq occurs_at_Suc)
    moreover have "\<forall>q. occurs_at (c # cs) sub q \<longrightarrow> nat (str_find (c # cs) sub) \<le> q"
    proof (intro allI impI)
      fix q assume q: "occurs_at (c # cs) sub q"
      show "nat (str_find (c # cs) sub) \<le> q"
      proof (cases q)
        case 0
        with q False show ?thesis by (simp only: occurs_at_0)
      next
        case (Suc q')
        with q have "occurs_at cs sub q'" by (simp add: occurs_at_Suc)
        with least have "nat (str_find cs sub) \<le> q'" by blast
        then show ?thesis by (simp only: eq nat_eq Suc Suc_le_mono)
      qed
    qed
    ultimately show ?thesis by blast
  qed
qed

subsection \<open>The loop of \<^verbatim>\<open>check_full_text_match\<close> keeps its invariant\<close>

lemma earliest_inv_InfI:
  "em_position em = Inf \<Longrightarrow> em_stop_string em = None \<Longrightarrow>
   \<forall>s\<in>set seen. str_find body s = - 1 \<Longrightarrow> earliest_inv body seen em"
  by (simp add: earliest_inv_def)

lemma earliest_inv_PosI:
  "em_position em = Pos p \<Longrightarrow> seen = pre @ s # post \<Longrightarrow> em_stop_string em = Some s \<Longrightarrow>
   str_find body s = p \<Longrightarrow> p \<noteq> - 1 \<Longrightarrow>
   \<forall>t\<in>set seen. str_find body t \<noteq> - 1 \<longrightarrow> p \<le> str_find body t \<Longrightarrow>
   \<forall>t\<in>set pre. str_find body t \<noteq> p \<Longrightarrow> earliest_inv body seen em"
  unfolding earliest_inv_def by (simp only: position.case) blast

lemma earliest_inv_InfD:
  "earliest_inv body seen em \<Longrightarrow> em_position em = Inf \<Longrightarrow>
   em_stop_string em = None \<and> (\<forall>s\<in>set seen. str_find body s = - 1)"
  by (simp add: earliest_inv_def)

lemma earliest_inv_PosD:
  "earliest_inv body seen em \<Longrightarrow> em_position em = Pos p \<Longrightarrow>
   \<exists>pre s post. seen = pre @ s # post \<and> em_stop_string em = Some s \<and>
             str_find body s = p \<and> p \<noteq> - 1 \<and>
             (\<forall>t\<in>set seen. str_find body t \<noteq> - 1 \<longrightarrow> p \<le> str_find body t) \<and>
             (\<forall>t\<in>set pre. str_find body t \<noteq> p)"
  by (simp add: earliest_inv_def)

lemma earliest_inv_step:
  assumes "earliest_inv body seen em"
  shows "earliest_inv body (seen @ [x])
           (if str_find body x \<noteq> - 1 \<and> position_less (str_find body x) (em_position em)
            then \<lparr>em_position = Pos (str_find body x), em_stop_string = Some x\<rparr>
            else em)"
proof (cases "em_position em")
  case Inf
  from earliest_inv_InfD [OF assms Inf]
  have none: "em_stop_string em = None" and absent: "\<forall>s\<in>set seen. str_find body s = - 1"
    by simp_all
  show ?thesis
  proof (cases "str_find body x = - 1")
    case True
    have "earliest_inv body (seen @ [x]) em"
      by (rule earliest_inv_InfI [OF Inf none]) (use absent True in simp)
    with True show ?thesis by simp
  next
    case False
    have "earliest_inv body (seen @ [x])
            \<lparr>em_position = Pos (str_find body x), em_stop_string = Some x\<rparr>"
    proof (rule earliest_inv_PosI [where pre = seen and s = x and post = "[]"])
      show "\<forall>t\<in>set (seen @ [x]). str_find body t \<noteq> - 1 \<longrightarrow> str_find body x \<le> str_find body t"
        using absent by simp
      show "\<forall>t\<in>set seen. str_find body t \<noteq> str_find body x"
        using absent False by simp
    qed (use False in simp_all)
    with False Inf show ?thesis by simp
  qed
next
  case (Pos p)
  from earliest_inv_PosD [OF assms Pos]
  obtain pre s post where seen: "seen = pre @ s # post"
    and str: "em_stop_string em = Some s" and fs: "str_find body s = p" and p: "p \<noteq> - 1"
    and least: "\<forall>t\<in>set seen. str_find body t \<noteq> - 1 \<longrightarrow> p \<le> str_find body t"
    and first: "\<forall>t\<in>set pre. str_find body t \<noteq> p"
    by blast
  show ?thesis
  proof (cases "str_find body x \<noteq> - 1 \<and> str_find body x < p")
    case True
    have "earliest_inv body (seen @ [x])
            \<lparr>em_position = Pos (str_find body x), em_stop_string = Some x\<rparr>"
    proof (rule earliest_inv_PosI [where pre = seen and s = x and post = "[]"])
      show "\<forall>t\<in>set (seen @ [x]). str_find body t \<noteq> - 1 \<longrightarrow> str_find body x \<le> str_find body t"
      proof (intro ballI impI)
        fix t assume "t \<in> set (seen @ [x])" and ne: "str_find body t \<noteq> - 1"
        then have "t = x \<or> t \<in> set seen" by auto
        then show "str_find body x \<le> str_find body t"
        proof
          assume "t = x" then show ?thesis by simp
        next
          assume "t \<in> set seen"
          with least ne have "p \<le> str_find body t" by blast
          with True show ?thesis by linarith
        qed
      qed
      show "\<forall>t\<in>set seen. str_find body t \<noteq> str_find body x"
      proof (intro ballI notI)
        fix t assume t: "t \<in> set seen" and eq: "str_find body t = str_find body x"
        with True have "str_find body t \<noteq> - 1" by simp
        with least t have "p \<le> str_find body t" by blast
        with eq True show False by linarith
      qed
    qed (use True in simp_all)
    with True Pos show ?thesis by simp
  next
    case False
    have "earliest_inv body (seen @ [x]) em"
    proof (rule earliest_inv_PosI [OF Pos _ str fs p _ first, where post = "post @ [x]"])
      show "seen @ [x] = pre @ s # post @ [x]" using seen by simp
      show "\<forall>t\<in>set (seen @ [x]). str_find body t \<noteq> - 1 \<longrightarrow> p \<le> str_find body t"
      proof (intro ballI impI)
        fix t assume "t \<in> set (seen @ [x])" and ne: "str_find body t \<noteq> - 1"
        then have "t = x \<or> t \<in> set seen" by auto
        then show "p \<le> str_find body t"
        proof
          assume "t = x" with False ne show ?thesis by simp
        next
          assume "t \<in> set seen"
          with least ne show ?thesis by blast
        qed
      qed
    qed
    with False Pos show ?thesis by auto
  qed
qed

lemma earliest_match_loop_inv:
  "earliest_inv body seen em \<Longrightarrow>
   earliest_inv body (seen @ xs) (earliest_match_loop body xs em)"
proof (induction xs arbitrary: seen em)
  case Nil
  then show ?case by simp
next
  case (Cons x xs)
  from earliest_inv_step [OF Cons.prems, of x]
  have "earliest_inv body ((seen @ [x]) @ xs)
          (earliest_match_loop body xs
            (if str_find body x \<noteq> - 1 \<and> position_less (str_find body x) (em_position em)
             then \<lparr>em_position = Pos (str_find body x), em_stop_string = Some x\<rparr>
             else em))"
    by (rule Cons.IH)
  then show ?case by (simp add: Let_def)
qed

lemma earliest_match_loop_result:
  "earliest_inv body ss
     (earliest_match_loop body ss \<lparr>em_position = Inf, em_stop_string = None\<rparr>)"
proof -
  have "earliest_inv body [] \<lparr>em_position = Inf, em_stop_string = None\<rparr>"
    by (simp add: earliest_inv_def)
  from earliest_match_loop_inv [OF this, of ss] show ?thesis by simp
qed

lemma check_full_text_match_None:
  "(check_full_text_match body ss = None) = (\<forall>s\<in>set ss. str_find body s = - 1)"
proof -
  let ?em = "earliest_match_loop body ss \<lparr>em_position = Inf, em_stop_string = None\<rparr>"
  have inv: "earliest_inv body ss ?em" by (rule earliest_match_loop_result)
  show ?thesis
  proof (cases "em_position ?em")
    case Inf
    from earliest_inv_InfD [OF inv Inf] show ?thesis
      by (simp add: check_full_text_match_def)
  next
    case (Pos p)
    from earliest_inv_PosD [OF inv Pos]
    obtain pre s post where "ss = pre @ s # post" "em_stop_string ?em = Some s"
      "str_find body s = p" "p \<noteq> - 1" by blast
    then have "check_full_text_match body ss \<noteq> None" "s \<in> set ss" "str_find body s \<noteq> - 1"
      by (simp_all add: check_full_text_match_def)
    then show ?thesis by blast
  qed
qed

lemma check_full_text_match_Some:
  "check_full_text_match body ss = Some r \<Longrightarrow>
   \<exists>s. r = StoppingCriteriaResult ''full_stop'' (Some s)"
  by (auto simp: check_full_text_match_def Let_def split: if_splits)

lemma check_partial_token_match_eq:
  "check_partial_token_match toks seqs =
     (if \<exists>q\<in>set seqs. sequence_overlap toks q
      then Some (StoppingCriteriaResult ''partial_match'' None) else None)"
  by (induction seqs) auto

lemma check_partial_text_match_eq:
  "check_partial_text_match body ss =
     (if \<exists>s\<in>set ss. sequence_overlap body s
      then Some (StopStringProcessorResult ''partial_match'' None None) else None)"
  by (induction ss) auto

lemma overlap_range: "set [1 ..< m + 1] = {i. 1 \<le> i \<and> i \<le> m}"
  by auto

lemma stopping_criteria_status:
  "result_status (stopping_criteria body toks ss seqs)
     \<in> {''full_stop'', ''partial_match'', ''no_match''}"
  by (auto simp: stopping_criteria_def check_partial_token_match_eq check_partial_text_match_eq
        check_full_text_match_def Let_def split: option.splits if_splits)

subsection \<open>Claims about the stop-string detection\<close>

text \<open>
  Claim C7. \<^verbatim>\<open>sequence_overlap(a, b)\<close> is true exactly when for some length \<open>i\<close> with
  \<open>1 \<le> i \<le> min(len(a), len(b))\<close> the suffix of \<open>a\<close> of length \<open>i\<close> equals the prefix of
  \<open>b\<close> of length \<open>i\<close>. The function is a pure function of its two arguments, and checking
  the lengths in any other order gives the same boolean.
\<close>

theorem sequence_overlap_iff:
  "(sequence_overlap a b =
      (\<exists>i. 1 \<le> i \<and> i \<le> min (length a) (length b) \<and> drop (length a - i) a = take i b)) \<and>
   (\<forall>order. set order = {1 .. min (length a) (length b)} \<longrightarrow>
      list_ex (\<lambda>i. drop (length a - i) a = take i b) order = sequence_overlap a b)"
proof -
  have "sequence_overlap a b =
      (\<exists>i. 1 \<le> i \<and> i \<le> min (length a) (length b) \<and> drop (length a - i) a = take i b)"
    unfolding sequence_overlap_def Let_def slice_last_def list_ex_iff overlap_range by blast
  moreover have "\<forall>order. set order = {1 .. min (length a) (length b)} \<longrightarrow>
      list_ex (\<lambda>i. drop (length a - i) a = take i b) order = sequence_overlap a b"
  proof (intro allI impI)
    fix order :: "nat list"
    assume "set order = {1 .. min (length a) (length b)}"
    then show "list_ex (\<lambda>i. drop (length a - i) a = take i b) order = sequence_overlap a b"
      unfolding calculation list_ex_iff by auto
  qed
  ultimately show ?thesis by blast
qed

theorem sequence_overlap_iff_witness:
  "set [2, 1 :: nat] = {1 .. min (length [1, 2, 3 :: int]) (length [3, 4 :: int])} \<and>
   sequence_overlap [1, 2, 3 :: int] [3, 4 :: int] \<and>
   list_ex (\<lambda>i. drop (length [1, 2, 3 :: int] - i) [1, 2, 3 :: int] = take i [3, 4 :: int]) [2, 1]"
proof -
  note inst = sequence_overlap_iff [of "[1, 2, 3 :: int]" "[3, 4 :: int]"]
  have h: "set [2, 1 :: nat] = {1 .. min (length [1, 2, 3 :: int]) (length [3, 4 :: int])}"
    by auto
  have ex: "\<exists>i. 1 \<le> i \<and> i \<le> min (length [1, 2, 3 :: int]) (length [3, 4 :: int]) \<and>
          drop (length [1, 2, 3 :: int] - i) [1, 2, 3 :: int] = take i [3, 4 :: int]"
    by (rule exI [of _ 1]) simp
  from inst [THEN conjunct1] ex have ov: "sequence_overlap [1, 2, 3 :: int] [3, 4 :: int]"
    by (rule iffD2)
  from inst [THEN conjunct2, rule_format, OF h] ov
  have any: "list_ex (\<lambda>i. drop (length [1, 2, 3 :: int] - i) [1, 2, 3 :: int] = take i [3, 4 :: int]) [2, 1]"
    by (rule iffD2)
  from h ov any show ?thesis by (intro conjI)
qed

text \<open>
  Claim C1. \<^verbatim>\<open>stopping_criteria\<close> applies its checks in priority order, the first
  applicable one winning: the result of the full-text check if there is one; otherwise
  partial match (from the token check) if the token sequence overlaps some stop token
  sequence; otherwise partial match (from the text check) if the text overlaps some stop
  string; otherwise no match.
\<close>

theorem stopping_criteria_priority:
  "stopping_criteria body toks ss seqs =
     (case check_full_text_match body ss of
        Some full \<Rightarrow> Criteria full
      | None \<Rightarrow>
          if \<exists>q\<in>set seqs. sequence_overlap toks q
          then Criteria (StoppingCriteriaResult ''partial_match'' None)
          else if \<exists>s\<in>set ss. sequence_overlap body s
          then Processor (StopStringProcessorResult ''partial_match'' None None)
          else Criteria (StoppingCriteriaResult ''no_match'' None))"
  by (simp add: stopping_criteria_def check_partial_token_match_eq check_partial_text_match_eq
      split: option.splits)

theorem stopping_criteria_priority_witness:
  "check_full_text_match ''ab'' [''bc''] = None \<and>
   \<not> (\<exists>q\<in>set [[9 :: int]]. sequence_overlap [1, 2 :: int] q) \<and>
   (\<exists>s\<in>set [''bc'']. sequence_overlap ''ab'' s) \<and>
   stopping_criteria ''ab'' [1, 2] [''bc''] [[9]] =
     Processor (StopStringProcessorResult ''partial_match'' None None)"
proof -
  have full: "check_full_text_match ''ab'' [''bc''] = None"
    by (simp add: check_full_text_match_def)
  have tok: "\<not> (\<exists>q\<in>set [[9 :: int]]. sequence_overlap [1, 2 :: int] q)"
    by (simp add: sequence_overlap_def slice_last_def)
  have ovl: "\<exists>s\<in>set [''bc'']. sequence_overlap ''ab'' s"
    by (simp add: sequence_overlap_def slice_last_def)
  from stopping_criteria_priority [of "''ab''" "[1, 2]" "[''bc'']" "[[9]]"] full tok ovl
  show ?thesis by simp
qed

text \<open>
  Claim C2. When the text contains at least one configured stop string,
  \<^verbatim>\<open>check_full_text_match\<close> reports \<^verbatim>\<open>full_stop\<close> with a stop string \<open>s\<close> that occurs at an
  index \<open>p\<close> which no occurrence of any configured stop string precedes; and no stop
  string configured before \<open>s\<close> occurs at \<open>p\<close>, so a tie on the index goes to the stop
  string configured first.
\<close>

theorem check_full_text_match_earliest:
  assumes "\<exists>s\<in>set ss. \<exists>i. occurs_at body s i"
  shows "\<exists>pre s post p.
           ss = pre @ s # post \<and>
           check_full_text_match body ss = Some (StoppingCriteriaResult ''full_stop'' (Some s)) \<and>
           occurs_at body s p \<and>
           (\<forall>t\<in>set ss. \<forall>q. occurs_at body t q \<longrightarrow> p \<le> q) \<and>
           (\<forall>t\<in>set pre. \<not> occurs_at body t p)"
proof -
  let ?em = "earliest_match_loop body ss \<lparr>em_position = Inf, em_stop_string = None\<rparr>"
  have inv: "earliest_inv body ss ?em" by (rule earliest_match_loop_result)
  from assms obtain s0 where s0: "s0 \<in> set ss" "str_find body s0 \<noteq> - 1"
    using str_find_absent by blast
  have "em_position ?em \<noteq> Inf"
  proof
    assume "em_position ?em = Inf"
    from earliest_inv_InfD [OF inv this] s0 show False by blast
  qed
  then obtain p where pos: "em_position ?em = Pos p"
    by (cases "em_position ?em") simp_all
  from earliest_inv_PosD [OF inv pos]
  obtain pre s post where ss: "ss = pre @ s # post"
    and str: "em_stop_string ?em = Some s" and fs: "str_find body s = p" and p: "p \<noteq> - 1"
    and least: "\<forall>t\<in>set ss. str_find body t \<noteq> - 1 \<longrightarrow> p \<le> str_find body t"
    and first: "\<forall>t\<in>set pre. str_find body t \<noteq> p"
    by blast
  from p fs str_find_range [of body s] have p0: "0 \<le> p" by auto
  have res: "check_full_text_match body ss = Some (StoppingCriteriaResult ''full_stop'' (Some s))"
    using str by (simp add: check_full_text_match_def)
  have occ: "occurs_at body s (nat p)"
    using str_find_least [of body s] fs p by blast
  have low: "\<forall>t\<in>set ss. \<forall>q. occurs_at body t q \<longrightarrow> nat p \<le> q"
  proof (intro ballI allI impI)
    fix t q assume t: "t \<in> set ss" and q: "occurs_at body t q"
    then have ne: "str_find body t \<noteq> - 1" using str_find_absent by blast
    with str_find_least [of body t] q have "nat (str_find body t) \<le> q" by blast
    moreover from least t ne have "p \<le> str_find body t" by blast
    ultimately show "nat p \<le> q" by linarith
  qed
  have tie: "\<forall>t\<in>set pre. \<not> occurs_at body t (nat p)"
  proof (intro ballI notI)
    fix t assume t: "t \<in> set pre" and q: "occurs_at body t (nat p)"
    then have ne: "str_find body t \<noteq> - 1" using str_find_absent by blast
    with str_find_least [of body t] q have "nat (str_find body t) \<le> nat p" by blast
    moreover from t ss have "t \<in> set ss" by simp
    with least ne have "p \<le> str_find body t" by blast
    ultimately have "str_find body t = p" using p0 by linarith
    with first t show False by blast
  qed
  from ss res occ low tie show ?thesis by blast
qed

theorem check_full_text_match_earliest_witness:
  "(\<exists>s\<in>set [''world'', ''lo'', ''l'', ''llo'']. \<exists>i. occurs_at ''hello world'' s i) \<and>
   check_full_text_match ''hello world'' [''world'', ''lo'', ''l'', ''llo''] =
     Some (StoppingCriteriaResult ''full_stop'' (Some ''l'')) \<and>
   (\<exists>pre s post p.
      [''world'', ''lo'', ''l'', ''llo''] = pre @ s # post \<and>
      check_full_text_match ''hello world'' [''world'', ''lo'', ''l'', ''llo''] =
        Some (StoppingCriteriaResult ''full_stop'' (Some s)) \<and>
      occurs_at ''hello world'' s p \<and>
      (\<forall>t\<in>set [''world'', ''lo'', ''l'', ''llo'']. \<forall>q. occurs_at ''hello world'' t q \<longrightarrow> p \<le> q) \<and>
      (\<forall>t\<in>set pre. \<not> occurs_at ''hello world'' t p))"
proof -
  have "occurs_at ''hello world'' ''lo'' 3" by (simp add: occurs_at_def)
  then have h: "\<exists>s\<in>set [''world'', ''lo'', ''l'', ''llo'']. \<exists>i. occurs_at ''hello world'' s i"
    by auto
  have v: "check_full_text_match ''hello world'' [''world'', ''lo'', ''l'', ''llo''] =
     Some (StoppingCriteriaResult ''full_stop'' (Some ''l''))"
    by (simp add: check_full_text_match_def)
  from h v check_full_text_match_earliest [OF h] show ?thesis by (intro conjI)
qed

subsection \<open>Claims about \<^verbatim>\<open>StopStringProcessor.process_token\<close>\<close>

lemma process_token_never_raises: "fst (process_token self tok) \<noteq> Inl e"
  using stopping_criteria_status
    [of "decode (processor_tokenizer self) (token_id_buffer self @ [tok])"
        "token_id_buffer self @ [tok]" "stop_strings self" "stop_token_sequences self"]
  by (auto simp: process_token_def process_token_with_def Let_def)

lemma process_token_config:
  "process_token self tok = (r, self1) \<Longrightarrow> stop_strings self1 = stop_strings self"
  by (auto simp: process_token_def process_token_with_def Let_def split: if_splits)

lemma process_token_pending:
  "stop_strings self \<noteq> [] \<Longrightarrow> process_token self tok = (r, self1) \<Longrightarrow>
   token_id_buffer self1 =
     (if r = Inr (StopStringProcessorResult ''no_match'' None None) then []
      else token_id_buffer self @ [tok])"
  by (auto simp: process_token_def process_token_with_def Let_def split: if_splits)

text \<open>
  Over any sequence of calls, the buffer holds the tokens appended since the last
  \<^verbatim>\<open>no_match\<close> outcome (all of them, after the initial buffer, if there was none).
\<close>

lemma process_tokens_pending:
  "stop_strings self \<noteq> [] \<Longrightarrow> process_tokens self toks = (rs, self1) \<Longrightarrow>
   token_id_buffer self1 = pending_tokens (token_id_buffer self) (zip toks rs)"
proof (induction toks arbitrary: self rs self1)
  case Nil
  then show ?case by simp
next
  case (Cons t ts)
  obtain r selfa where step: "process_token self t = (r, selfa)"
    by (cases "process_token self t")
  obtain rs' selfb where rest: "process_tokens selfa ts = (rs', selfb)"
    by (cases "process_tokens selfa ts")
  from Cons.prems(2) step rest have rs: "rs = r # rs'" and self1: "self1 = selfb"
    by (simp_all add: Let_def)
  from process_token_config [OF step] Cons.prems(1) have ne: "stop_strings selfa \<noteq> []" by simp
  from Cons.IH [OF ne rest]
  have "token_id_buffer selfb = pending_tokens (token_id_buffer selfa) (zip ts rs')" .
  with process_token_pending [OF Cons.prems(1) step] rs self1 show ?case by simp
qed

text \<open>
  Claim C3. With a non-empty stop-string list, \<^verbatim>\<open>process_token\<close> appends the token to the
  buffer and evaluates the buffer. On no match it empties the buffer and returns
  \<^verbatim>\<open>no_match\<close>; on a partial match it keeps the buffer, new token included, and returns
  \<^verbatim>\<open>partial_match\<close>; on a full stop it returns \<^verbatim>\<open>full_stop\<close> with the matched stop string
  and the whole buffer as \<^verbatim>\<open>stop_tokens\<close>. (By \<open>process_tokens_pending\<close> that buffer is
  every token appended since the last no-match outcome.)
\<close>

theorem process_token_buffer:
  assumes "stop_strings self \<noteq> []"
  shows "let buffer = token_id_buffer self @ [tok];
             result = stopping_criteria (decode (processor_tokenizer self) buffer) buffer
                        (stop_strings self) (stop_token_sequences self)
         in (result_status result = ''no_match'' \<longrightarrow>
               process_token self tok =
                 (Inr (StopStringProcessorResult ''no_match'' None None),
                  self\<lparr>token_id_buffer := []\<rparr>)) \<and>
            (result_status result = ''partial_match'' \<longrightarrow>
               process_token self tok =
                 (Inr (StopStringProcessorResult ''partial_match'' None None),
                  self\<lparr>token_id_buffer := buffer\<rparr>)) \<and>
            (result_status result = ''full_stop'' \<longrightarrow>
               process_token self tok =
                 (Inr (StopStringProcessorResult ''full_stop'' (result_stop_string result)
                         (Some buffer)),
                  self\<lparr>token_id_buffer := buffer\<rparr>))"
  using assms by (simp add: process_token_def process_token_with_def Let_def)

lemma abc_full_stop:
  "stopping_criteria ''bc'' [2, 3] [''bc''] [[2, 3]] =
     Criteria (StoppingCriteriaResult ''full_stop'' (Some ''bc''))"
  by (simp add: stopping_criteria_def check_full_text_match_def)

theorem process_token_buffer_witness:
  "stop_strings ((StopStringProcessor_init [''bc''] abc_tokenizer)\<lparr>token_id_buffer := [2]\<rparr>) \<noteq> [] \<and>
   process_token ((StopStringProcessor_init [''bc''] abc_tokenizer)\<lparr>token_id_buffer := [2]\<rparr>) 3 =
     (Inr (StopStringProcessorResult ''full_stop'' (Some ''bc'') (Some [2, 3])),
      (StopStringProcessor_init [''bc''] abc_tokenizer)\<lparr>token_id_buffer := [2, 3]\<rparr>)"
proof -
  let ?p = "(StopStringProcessor_init [''bc''] abc_tokenizer)\<lparr>token_id_buffer := [2]\<rparr>"
  have ne: "stop_strings ?p \<noteq> []" by (simp add: StopStringProcessor_init_def)
  have ev: "stopping_criteria (decode (processor_tokenizer ?p) (token_id_buffer ?p @ [3]))
              (token_id_buffer ?p @ [3]) (stop_strings ?p) (stop_token_sequences ?p) =
            Criteria (StoppingCriteriaResult ''full_stop'' (Some ''bc''))"
    by (simp add: StopStringProcessor_init_def abc_tokenizer_def piece_def letter_token_def
        abc_full_stop)
  have "process_token ?p 3 =
     (Inr (StopStringProcessorResult ''full_stop'' (Some ''bc'') (Some [2, 3])),
      ?p\<lparr>token_id_buffer := [2, 3]\<rparr>)"
    using process_token_buffer [OF ne, of 3] unfolding Let_def ev by simp
  with ne show ?thesis by simp
qed

text \<open>
  Claim C6. When the evaluator's result has a status other than \<^verbatim>\<open>full_stop\<close>,
  \<^verbatim>\<open>partial_match\<close> and \<^verbatim>\<open>no_match\<close>, \<^verbatim>\<open>process_token\<close> raises \<^verbatim>\<open>ValueError\<close> and returns no
  result. (The evaluator runs only when the stop-string list is not empty.)
\<close>

theorem process_token_unknown_status:
  assumes "stop_strings self \<noteq> []"
    and "result_status
           (evaluate (decode (processor_tokenizer self) (token_id_buffer self @ [tok]))
              (token_id_buffer self @ [tok]) (stop_strings self) (stop_token_sequences self))
         \<notin> {''full_stop'', ''partial_match'', ''no_match''}"
  shows "fst (process_token_with evaluate self tok) =
           Inl (ValueError (''Unknown StopProcessorStatus: '' @
             result_status
               (evaluate (decode (processor_tokenizer self) (token_id_buffer self @ [tok]))
                  (token_id_buffer self @ [tok]) (stop_strings self)
                  (stop_token_sequences self))))"
  using assms by (simp add: process_token_with_def Let_def)

theorem process_token_unknown_status_witness:
  "stop_strings (StopStringProcessor_init [''bc''] abc_tokenizer) \<noteq> [] \<and>
   ''maybe'' \<notin> {''full_stop'', ''partial_match'', ''no_match''} \<and>
   fst (process_token_with (\<lambda>s t ss sts. Criteria (StoppingCriteriaResult ''maybe'' None))
          (StopStringProcessor_init [''bc''] abc_tokenizer) 1) =
     Inl (ValueError ''Unknown StopProcessorStatus: maybe'')"
proof -
  let ?p = "StopStringProcessor_init [''bc''] abc_tokenizer"
  let ?ev = "\<lambda>(s :: string) (t :: int list) (ss :: string list) (sts :: int list list).
               Criteria (StoppingCriteriaResult ''maybe'' None)"
  have ne: "stop_strings ?p \<noteq> []" by (simp add: StopStringProcessor_init_def)
  have un: "''maybe'' \<notin> {''full_stop'', ''partial_match'', ''no_match''}" by simp
  have "fst (process_token_with ?ev ?p 1) = Inl (ValueError ''Unknown StopProcessorStatus: maybe'')"
    using process_token_unknown_status [of ?p ?ev 1] ne un by simp
  with ne un show ?thesis by (intro conjI)
qed

text \<open>
  Claim C10. If the stop-string list contains the empty string, \<^verbatim>\<open>stopping_criteria\<close>
  returns \<^verbatim>\<open>full_stop\<close> for every text and every token sequence, and a fresh
  \<^verbatim>\<open>StopStringProcessor\<close> reports \<^verbatim>\<open>full_stop\<close> on the first token it processes.
\<close>

theorem empty_stop_string_full_stop:
  assumes "'''' \<in> set ss"
  shows "result_status (stopping_criteria body toks ss seqs) = ''full_stop'' \<and>
         (\<exists>s. process_token (StopStringProcessor_init ss tk) tok =
                (Inr (StopStringProcessorResult ''full_stop'' (Some s) (Some [tok])),
                 (StopStringProcessor_init ss tk)\<lparr>token_id_buffer := [tok]\<rparr>))"
proof -
  have full: "\<exists>s. check_full_text_match b ss = Some (StoppingCriteriaResult ''full_stop'' (Some s))"
    for b
  proof -
    from assms str_find_empty [of b] have "\<not> (\<forall>s\<in>set ss. str_find b s = - 1)" by force
    then have "check_full_text_match b ss \<noteq> None" by (simp add: check_full_text_match_None)
    then obtain r where "check_full_text_match b ss = Some r" by blast
    with check_full_text_match_Some [OF this] show ?thesis by blast
  qed
  have crit: "\<exists>s. stopping_criteria b t ss q =
                Criteria (StoppingCriteriaResult ''full_stop'' (Some s))" for b t q
  proof -
    from full [of b] obtain s where
      "check_full_text_match b ss = Some (StoppingCriteriaResult ''full_stop'' (Some s))" by blast
    then have "stopping_criteria b t ss q =
                 Criteria (StoppingCriteriaResult ''full_stop'' (Some s))"
      by (simp add: stopping_criteria_def)
    then show ?thesis by blast
  qed
  from assms have ne: "ss \<noteq> []" by auto
  from crit [of body toks seqs]
  have "result_status (stopping_criteria body toks ss seqs) = ''full_stop''"
    by auto
  moreover from crit [of "decode tk [tok]" "[tok]" "map (encode tk) ss"] obtain s where
    "stopping_criteria (decode tk [tok]) [tok] ss (map (encode tk) ss) =
       Criteria (StoppingCriteriaResult ''full_stop'' (Some s))" by blast
  with ne have "process_token (StopStringProcessor_init ss tk) tok =
                (Inr (StopStringProcessorResult ''full_stop'' (Some s) (Some [tok])),
                 (StopStringProcessor_init ss tk)\<lparr>token_id_buffer := [tok]\<rparr>)"
    by (simp add: process_token_def process_token_with_def StopStringProcessor_init_def Let_def)
  ultimately show ?thesis by blast
qed

theorem empty_stop_string_full_stop_witness:
  "'''' \<in> set [''bc'', ''''] \<and>
   result_status (stopping_criteria '''' [] [''bc'', ''''] [[2, 3], []]) = ''full_stop'' \<and>
   (\<exists>s. process_token (StopStringProcessor_init [''bc'', ''''] abc_tokenizer) 1 =
          (Inr (StopStringProcessorResult ''full_stop'' (Some s) (Some [1])),
           (StopStringProcessor_init [''bc'', ''''] abc_tokenizer)\<lparr>token_id_buffer := [1]\<rparr>))"
proof -
  have h: "'''' \<in> set [''bc'', '''']" by simp
  from h empty_stop_string_full_stop [OF h, of "''''" "[]" "[[2, 3], []]" abc_tokenizer 1]
  show ?thesis by (intro conjI) blast+
qed

section \<open>Properties of the generation loop\<close>

lemma loop_body_yields_no_condition:
  "loop_body env k st step = (st1, out, ctl) \<Longrightarrow> \<forall>r\<in>set out. stop_condition r = None"
  by (auto simp: loop_body_def Let_def split: prod.splits sum.splits if_splits)

lemma generation_loop_yields_no_condition:
  "generation_loop env k st steps = (st1, outs, n, err) \<Longrightarrow>
   \<forall>r\<in>set outs. stop_condition r = None"
proof (induction steps arbitrary: st st1 outs n err)
  case Nil
  then show ?case by simp
next
  case (Cons step rest)
  obtain sa out ctl where body: "loop_body env k st step = (sa, out, ctl)"
    by (cases "loop_body env k st step")
  from loop_body_yields_no_condition [OF body]
  have out: "\<forall>r\<in>set out. stop_condition r = None" .
  show ?case
  proof (cases ctl)
    case Next
    obtain sb outs' n' err' where rest: "generation_loop env k sa rest = (sb, outs', n', err')"
      by (cases "generation_loop env k sa rest")
    from Cons.IH [OF rest] have "\<forall>r\<in>set outs'. stop_condition r = None" .
    moreover from Cons.prems body Next rest have "outs = out @ outs'" by simp
    ultimately show ?thesis using out by auto
  next
    case Break
    with Cons.prems body have "outs = out" by simp
    with out show ?thesis by simp
  next
    case (Raise e)
    with Cons.prems body have "outs = out" by simp
    with out show ?thesis by simp
  qed
qed

lemma generation_loop_error_requested:
  assumes loop: "generation_loop env k st steps = (st1, outs, n, Some e)"
  shows "1 \<le> n"
proof (cases steps)
  case Nil
  with loop show ?thesis by simp
next
  case (Cons step rest)
  obtain sa out ctl where body: "loop_body env k st step = (sa, out, ctl)"
    by (cases "loop_body env k st step")
  show ?thesis
  proof (cases ctl)
    case Next
    obtain sb outs' n' err' where rest: "generation_loop env k sa rest = (sb, outs', n', err')"
      by (cases "generation_loop env k sa rest")
    with loop Cons body Next show ?thesis by simp
  next
    case Break
    with loop Cons body show ?thesis by simp
  next
    case (Raise e')
    with loop Cons body show ?thesis by simp
  qed
qed

lemma finalize_creates_descriptor_finalize: "finalize_creates_descriptor finalize"
  by (simp add: finalize_creates_descriptor_def finalize_def split: option.splits)

subsection \<open>Claims about \<^verbatim>\<open>create_generator\<close>\<close>

text \<open>
  Claim C8. A run configured with \<^verbatim>\<open>top_logprobs\<close> above \<^verbatim>\<open>MAX_TOP_LOGPROBS = 10\<close> fails
  with \<^verbatim>\<open>ValueError\<close>: it takes no item from the token source and yields no result.
\<close>

theorem top_logprobs_cap:
  assumes "k > MAX_TOP_LOGPROBS"
  shows "MAX_TOP_LOGPROBS = 10 \<and>
         create_generator env prompt ss (Some k) m =
           \<lparr>yielded = [], tokens_requested = 0,
            raised = Some (ValueError ''top_logprobs must be less than or equal to 10'')\<rparr>"
  using assms by (simp add: create_generator_def MAX_TOP_LOGPROBS_def Let_def)

theorem top_logprobs_cap_witness:
  "(11 :: int) > MAX_TOP_LOGPROBS \<and>
   create_generator abc_collaborators [1, 2, 3] (Some [''bc'']) (Some 11) (Some 5) =
     \<lparr>yielded = [], tokens_requested = 0,
      raised = Some (ValueError ''top_logprobs must be less than or equal to 10'')\<rparr>"
proof -
  have h: "(11 :: int) > MAX_TOP_LOGPROBS" by (simp add: MAX_TOP_LOGPROBS_def)
  from top_logprobs_cap [OF h, of abc_collaborators "[1, 2, 3]" "Some [''bc'']" "Some 5"] h
  show ?thesis by simp
qed

text \<open>
  Claim C5. In a pass of the loop body in which the stop processor returns a result: on
  \<^verbatim>\<open>partial_match\<close> the step's text is appended to the text buffer and nothing is
  yielded; on \<^verbatim>\<open>no_match\<close> the text is appended and, exactly when the text buffer is then
  not empty, one result is yielded with the accumulated text, the buffered tokens, the
  buffered top-logprobs and no stop condition, after which the three buffers are empty.
\<close>

theorem loop_body_flush:
  assumes "sp_process_token env (stop_processor st) (gen_token step) = (Inr r, p)"
    and "loop_body env k st step = (st1, out, ctl)"
  shows "(sp_status r = ''partial_match'' \<longrightarrow>
            out = [] \<and> ctl = Next \<and>
            text_buffer st1 = text_buffer st @ gen_text step \<and>
            token_buffer st1 = token_buffer st @
              [TokenLogprob (gen_token step) (decode_token env (gen_token step))
                 (gen_logprobs step (gen_token step))] \<and>
            top_logprobs_buffer st1 =
              (if k \<noteq> 0
               then top_logprobs_buffer st @ [summarize_top_logprobs env (gen_logprobs step) k]
               else top_logprobs_buffer st)) \<and>
         (sp_status r = ''no_match'' \<longrightarrow>
            ctl = Next \<and>
            (if text_buffer st @ gen_text step \<noteq> []
             then out =
                    [\<lparr>gr_text = text_buffer st @ gen_text step,
                      gr_tokens = token_buffer st @
                        [TokenLogprob (gen_token step) (decode_token env (gen_token step))
                           (gen_logprobs step (gen_token step))],
                      gr_top_logprobs =
                        (if k \<noteq> 0
                         then top_logprobs_buffer st @
                                [summarize_top_logprobs env (gen_logprobs step) k]
                         else top_logprobs_buffer st),
                      stop_condition = None\<rparr>] \<and>
                  text_buffer st1 = [] \<and> token_buffer st1 = [] \<and> top_logprobs_buffer st1 = []
             else out = [] \<and> text_buffer st1 = [] \<and>
                  token_buffer st1 = token_buffer st @
                    [TokenLogprob (gen_token step) (decode_token env (gen_token step))
                       (gen_logprobs step (gen_token step))]))"
  using assms by (auto simp: loop_body_def Let_def split: if_splits)

text \<open>
  Claim C4. In a run that ends without an error, the yielded results are some results
  without a stop condition followed by one last result with a stop condition: exactly
  one result of the run carries one. That the last result carries one is what the
  specification requires of the missing \<^verbatim>\<open>StopProcessor.finalize\<close>.
\<close>

theorem single_final_stop_condition:
  assumes "finalize_creates_descriptor (sp_finalize env)"
    and "raised (create_generator env prompt ss k m) = None"
  shows "\<exists>earlier final.
           yielded (create_generator env prompt ss k m) = earlier @ [final] \<and>
           stop_condition final \<noteq> None \<and>
           (\<forall>r\<in>set earlier. stop_condition r = None) \<and>
           length (filter (\<lambda>r. stop_condition r \<noteq> None)
                     (yielded (create_generator env prompt ss k m))) = 1"
proof -
  let ?k = "case k of None \<Rightarrow> 0 | Some j \<Rightarrow> j"
  let ?st0 = "\<lparr>token_buffer = [], top_logprobs_buffer = [],
               stop_processor = new_stop_processor env
                 (map (tokenize env) (case ss of None \<Rightarrow> [] | Some l \<Rightarrow> l)),
               stop_processor_result = None, text_buffer = [], recorded_tokens = []\<rparr>"
  let ?steps = "stream_generate env (process_prompt env prompt) m"
  from assms(2) have cap: "\<not> ?k > MAX_TOP_LOGPROBS"
    by (auto simp: create_generator_def Let_def)
  obtain st outs n err where loop: "generation_loop env ?k ?st0 ?steps = (st, outs, n, err)"
    by (cases "generation_loop env ?k ?st0 ?steps")
  from assms(2) cap loop have err: "err = None"
    by (cases err) (simp_all add: create_generator_def Let_def)
  obtain final_text cond where
    fin: "sp_finalize env (stop_processor st) (text_buffer st) (stop_processor_result st) =
            (final_text, cond)"
    by (cases "sp_finalize env (stop_processor st) (text_buffer st) (stop_processor_result st)")
  let ?final = "\<lparr>gr_text = final_text, gr_tokens = token_buffer st,
                 gr_top_logprobs = top_logprobs_buffer st, stop_condition = cond\<rparr>"
  from cap loop err fin
  have run: "yielded (create_generator env prompt ss k m) = outs @ [?final]"
    by (simp add: create_generator_def Let_def)
  from assms(1) fin have cond: "cond \<noteq> None"
    unfolding finalize_creates_descriptor_def by (metis snd_conv)
  from generation_loop_yields_no_condition [OF loop]
  have none: "\<forall>r\<in>set outs. stop_condition r = None" .
  then have "filter (\<lambda>r. stop_condition r \<noteq> None) outs = []"
    by (simp add: filter_empty_conv)
  with cond have "length (filter (\<lambda>r. stop_condition r \<noteq> None) (outs @ [?final])) = 1"
    by simp
  with run cond none show ?thesis by auto
qed

text \<open>
  Claim C9. The claim asks that a run configured with a negative maximum token count
  fails with a configuration error before any token is requested. \<^verbatim>\<open>create_generator\<close>
  has no check of \<^verbatim>\<open>max_tokens\<close>, although its docstring promises \<^verbatim>\<open>ValueError\<close> "if any
  parameters are invalid" and it checks \<^verbatim>\<open>top_logprobs\<close> a few lines before the loop. At
  \<^verbatim>\<open>max_tokens = -1\<close> with \<^verbatim>\<open>top_logprobs\<close> left out, whatever the collaborators are, the
  run is never one that raises without having yielded a result or taken an item from
  the token source: the token source is entered with the count \<open>-1\<close>.
\<close>

theorem negative_max_tokens_not_rejected:
  "\<not> (\<exists>e. create_generator env prompt ss None (Some (- 1)) =
            \<lparr>yielded = [], tokens_requested = 0, raised = Some e\<rparr>)"
proof
  let ?st0 = "\<lparr>token_buffer = [], top_logprobs_buffer = [],
               stop_processor = new_stop_processor env
                 (map (tokenize env) (case ss of None \<Rightarrow> [] | Some l \<Rightarrow> l)),
               stop_processor_result = None, text_buffer = [], recorded_tokens = []\<rparr>"
  let ?steps = "stream_generate env (process_prompt env prompt) (Some (- 1))"
  assume "\<exists>e. create_generator env prompt ss None (Some (- 1)) =
            \<lparr>yielded = [], tokens_requested = 0, raised = Some e\<rparr>"
  then obtain e where run: "create_generator env prompt ss None (Some (- 1)) =
            \<lparr>yielded = [], tokens_requested = 0, raised = Some e\<rparr>" by blast
  obtain st outs n err where loop: "generation_loop env 0 ?st0 ?steps = (st, outs, n, err)"
    by (cases "generation_loop env 0 ?st0 ?steps")
  show False
  proof (cases err)
    case None
    obtain final_text cond where
      "sp_finalize env (stop_processor st) (text_buffer st) (stop_processor_result st) =
         (final_text, cond)"
      by (cases "sp_finalize env (stop_processor st) (text_buffer st)
                   (stop_processor_result st)")
    with loop None have "raised (create_generator env prompt ss None (Some (- 1))) = None"
      by (simp add: create_generator_def MAX_TOP_LOGPROBS_def Let_def)
    with run show False by simp
  next
    case (Some e')
    with generation_loop_error_requested loop have "1 \<le> n" by blast
    moreover from loop Some
    have "tokens_requested (create_generator env prompt ss None (Some (- 1))) = n"
      by (simp add: create_generator_def MAX_TOP_LOGPROBS_def Let_def)
    ultimately show False using run by simp
  qed
qed

subsection \<open>The claims at the concrete configuration\<close>

lemmas abc_defs = abc_collaborators_def replay_source_def piece_def letter_token_def
  abc_tokenizer_def stop_processor_process_token_def process_token_def process_token_with_def
  stopping_criteria_def check_full_text_match_def sequence_overlap_def slice_last_def
  finalize_def MAX_TOP_LOGPROBS_def loop_body_def create_generator_def Let_def

theorem loop_body_flush_witness:
  "sp_process_token abc_collaborators
     (stop_processor
        \<lparr>token_buffer = [], top_logprobs_buffer = [],
         stop_processor = new_stop_processor abc_collaborators [[2, 3]],
         stop_processor_result = None, text_buffer = [], recorded_tokens = []\<rparr>)
     (gen_token \<lparr>gen_token = 2, gen_logprobs = (\<lambda>i. - 1), gen_text = ''b''\<rparr>) =
     (Inr (StopProcessorResult ''partial_match'' None None None),
      (new_stop_processor abc_collaborators [[2, 3]])\<lparr>token_id_buffer := [2]\<rparr>) \<and>
   fst (snd (loop_body abc_collaborators 0
     \<lparr>token_buffer = [], top_logprobs_buffer = [],
      stop_processor = new_stop_processor abc_collaborators [[2, 3]],
      stop_processor_result = None, text_buffer = [], recorded_tokens = []\<rparr>
     \<lparr>gen_token = 2, gen_logprobs = (\<lambda>i. - 1), gen_text = ''b''\<rparr>)) = [] \<and>
   text_buffer (fst (loop_body abc_collaborators 0
     \<lparr>token_buffer = [], top_logprobs_buffer = [],
      stop_processor = new_stop_processor abc_collaborators [[2, 3]],
      stop_processor_result = None, text_buffer = [], recorded_tokens = []\<rparr>
     \<lparr>gen_token = 2, gen_logprobs = (\<lambda>i. - 1), gen_text = ''b''\<rparr>)) = ''b''"
proof -
  let ?st = "\<lparr>token_buffer = [] :: int TokenLogprob list, top_logprobs_buffer = [],
      stop_processor = new_stop_processor abc_collaborators [[2, 3]],
      stop_processor_result = None, text_buffer = [], recorded_tokens = []\<rparr>"
  let ?step = "\<lparr>gen_token = 2, gen_logprobs = (\<lambda>i :: int. - 1 :: int), gen_text = ''b''\<rparr>"
  let ?r = "StopProcessorResult ''partial_match'' None None None"
  let ?body = "loop_body abc_collaborators 0 ?st ?step"
  have call: "sp_process_token abc_collaborators (stop_processor ?st) (gen_token ?step) =
      (Inr ?r, (new_stop_processor abc_collaborators [[2, 3]])\<lparr>token_id_buffer := [2]\<rparr>)"
    by (simp add: abc_defs)
  have body: "?body = (fst ?body, fst (snd ?body), snd (snd ?body))" by simp
  from loop_body_flush [OF call body] have "fst (snd ?body) = []"
    and "text_buffer (fst ?body) = text_buffer ?st @ gen_text ?step" by simp_all
  with call show ?thesis by simp
qed

theorem single_final_stop_condition_witness:
  "finalize_creates_descriptor (sp_finalize abc_collaborators) \<and>
   raised (create_generator abc_collaborators [1, 2, 1, 2, 3, 1] (Some [''bc'']) None None) = None \<and>
   yielded (create_generator abc_collaborators [1, 2, 1, 2, 3, 1] (Some [''bc'']) None None) =
     [\<lparr>gr_text = ''a'', gr_tokens = [TokenLogprob 1 ''a'' (- 1)], gr_top_logprobs = [],
       stop_condition = None\<rparr>,
      \<lparr>gr_text = ''ba'', gr_tokens = [TokenLogprob 2 ''b'' (- 1), TokenLogprob 1 ''a'' (- 1)],
       gr_top_logprobs = [], stop_condition = None\<rparr>,
      \<lparr>gr_text = [], gr_tokens = [TokenLogprob 2 ''b'' (- 1), TokenLogprob 3 ''c'' (- 1)],
       gr_top_logprobs = [],
       stop_condition =
         Some (GenerationStopCondition ''stop_string'' (Some ''bc'') (Some [2, 3]))\<rparr>] \<and>
   (\<exists>earlier final.
      yielded (create_generator abc_collaborators [1, 2, 1, 2, 3, 1] (Some [''bc'']) None None) =
        earlier @ [final] \<and>
      stop_condition final \<noteq> None \<and>
      (\<forall>r\<in>set earlier. stop_condition r = None) \<and>
      length (filter (\<lambda>r. stop_condition r \<noteq> None)
        (yielded (create_generator abc_collaborators [1, 2, 1, 2, 3, 1] (Some [''bc''])
           None None))) = 1)"
proof -
  have h1: "finalize_creates_descriptor (sp_finalize abc_collaborators)"
    by (simp add: abc_collaborators_def finalize_creates_descriptor_finalize)
  have h2: "raised (create_generator abc_collaborators [1, 2, 1, 2, 3, 1] (Some [''bc''])
              None None) = None"
    by (simp add: abc_defs)
  have v: "yielded (create_generator abc_collaborators [1, 2, 1, 2, 3, 1] (Some [''bc''])
             None None) =
     [\<lparr>gr_text = ''a'', gr_tokens = [TokenLogprob 1 ''a'' (- 1)], gr_top_logprobs = [],
       stop_condition = None\<rparr>,
      \<lparr>gr_text = ''ba'', gr_tokens = [TokenLogprob 2 ''b'' (- 1), TokenLogprob 1 ''a'' (- 1)],
       gr_top_logprobs = [], stop_condition = None\<rparr>,
      \<lparr>gr_text = [], gr_tokens = [TokenLogprob 2 ''b'' (- 1), TokenLogprob 3 ''c'' (- 1)],
       gr_top_logprobs = [],
       stop_condition =
         Some (GenerationStopCondition ''stop_string'' (Some ''bc'') (Some [2, 3]))\<rparr>]"
    by (simp add: abc_defs)
  from h1 h2 v single_final_stop_condition [OF h1 h2] show ?thesis by (intro conjI)
qed

end
